theory Spec2Isabelle
  imports
    Complex_Main
    "HOL-Library.Char_ord"
    "HOL-Library.List_Lexorder"
    "HOL-Library.Product_Lexorder"
    "HOL-Library.Multiset"
begin

section \<open>Data model: the poll-response table\<close>

text \<open>
  \<^verbatim>\<open>poll_analysis_app.py\<close> works on one pandas DataFrame read from
  \<^verbatim>\<open>poll-responses.csv\<close>. A row is a record with the nine columns of the file.
  \<^verbatim>\<open>read_csv\<close> turns an empty cell into NaN, so every cell is optional:
  \<open>None\<close> is the missing value, \<open>Some v\<close> a present one. The webinar date is the
  8-digit number \<^verbatim>\<open>YYYYMMDD\<close>; all other columns are text.
  Strings are ordered lexicographically by character code, as Python orders them.
\<close>

record row =
  Webinar_Date :: "int option"
  Month_Year :: "string option"
  Webinar_Title_Full :: "string option"
  Name :: "string option"
  City_State :: "string option"
  State :: "string option"
  Population_Range :: "string option"
  Question :: "string option"
  Answer :: "string option"

type_synonym dataframe = "row list"

subsection \<open>pandas primitives used by the program\<close>

text \<open>
  \<^verbatim>\<open>df[df[col] == v]\<close>: boolean-mask selection. A missing cell compares unequal to
  every value, so only rows whose cell is present and equal to \<open>v\<close> are kept, in their
  original order.
\<close>

definition select_eq :: "(row \<Rightarrow> 'a option) \<Rightarrow> 'a \<Rightarrow> dataframe \<Rightarrow> dataframe" where
  "select_eq col v df = filter (\<lambda>r. col r = Some v) df"

text \<open>
  \<^verbatim>\<open>Series.nunique()\<close> counts the distinct present values, \<^verbatim>\<open>Series.count()\<close> the
  present values, and \<^verbatim>\<open>GroupBy.size()\<close> the rows of the group.
\<close>

definition nunique :: "'a option list \<Rightarrow> nat" where
  "nunique xs = length (remdups (List.map_filter id xs))"

definition count_agg :: "'a option list \<Rightarrow> nat" where
  "count_agg xs = length (filter (\<lambda>x. x \<noteq> None) xs)"

definition size_agg :: "'a list \<Rightarrow> nat" where
  "size_agg xs = length xs"

text \<open>
  \<^verbatim>\<open>df.groupby(keys)\<close> with the defaults \<^verbatim>\<open>sort=True, dropna=True\<close>: a row with a
  missing key cell belongs to no group (\<open>key r = None\<close>); the groups are the distinct
  key tuples of the remaining rows, in ascending key order.
\<close>

definition group_keys :: "(row \<Rightarrow> 'k option) \<Rightarrow> dataframe \<Rightarrow> ('k::linorder) list" where
  "group_keys key df = sort (remdups (List.map_filter key df))"

definition group_rows :: "(row \<Rightarrow> 'k option) \<Rightarrow> dataframe \<Rightarrow> 'k \<Rightarrow> dataframe" where
  "group_rows key df k = filter (\<lambda>r. key r = Some k) df"

text \<open>
  \<^verbatim>\<open>DataFrame.sort_values(col, ascending=False)\<close> sorts with the default
  \<^verbatim>\<open>kind="quicksort"\<close>. pandas' \<^verbatim>\<open>nargsort\<close> reverses the key column, calls numpy's
  \<^verbatim>\<open>argsort\<close> on it, maps the result back through the reversed index and reverses
  once more. numpy's sort is library code: it is a parameter \<open>argsort\<close> here, and
  \<open>argsort_ok\<close> is what numpy promises of it (the result is a permutation of the
  positions that puts the keys in ascending order). The default kind is not
  documented to be stable.
\<close>

definition argsort_ok :: "(int list \<Rightarrow> nat list) \<Rightarrow> bool" where
  "argsort_ok argsort \<longleftrightarrow>
     (\<forall>xs. mset (argsort xs) = mset [0..<length xs] \<and>
           sorted (map (\<lambda>i. xs ! i) (argsort xs)))"

definition nargsort_desc :: "(int list \<Rightarrow> nat list) \<Rightarrow> int list \<Rightarrow> nat list" where
  "nargsort_desc argsort items =
     (let non_nans = rev items;
          non_nan_idx = rev [0..<length items];
          indexer = map (\<lambda>i. non_nan_idx ! i) (argsort non_nans)
      in rev indexer)"

definition sort_values_desc :: "(int list \<Rightarrow> nat list) \<Rightarrow> ('r \<Rightarrow> int) \<Rightarrow> 'r list \<Rightarrow> 'r list" where
  "sort_values_desc argsort col df = map (\<lambda>i. df ! i) (nargsort_desc argsort (map col df))"

text \<open>Two sorts that meet numpy's contract: a stable one, and one that reverses ties.\<close>

definition stable_argsort :: "int list \<Rightarrow> nat list" where
  "stable_argsort xs = map snd (sort_key fst (zip xs [0..<length xs]))"


section \<open>Loader\<close>








section \<open>Aggregator\<close>

subsection \<open>\<^verbatim>\<open>get_session_summary\<close>\<close>

record summary_row =
  S_Webinar_Date :: int
  S_Month_Year :: string
  S_Webinar_Title_Full :: string
  Unique_Respondents :: nat
  Unique_Questions :: nat
  Total_Responses :: nat

type_synonym session_key = "int \<times> string \<times> string"

definition session_key_of :: "row \<Rightarrow> session_key option" where
  "session_key_of r =
     (case (Webinar_Date r, Month_Year r, Webinar_Title_Full r) of
        (Some d, Some m, Some t) \<Rightarrow> Some (d, m, t)
      | _ \<Rightarrow> None)"

definition summary_of_group :: "dataframe \<Rightarrow> session_key \<Rightarrow> summary_row" where
  "summary_of_group df k =
     (let g = group_rows session_key_of df k
      in \<lparr> S_Webinar_Date = fst k,
           S_Month_Year = fst (snd k),
           S_Webinar_Title_Full = snd (snd k),
           Unique_Respondents = nunique (map Name g),
           Unique_Questions = nunique (map Question g),
           Total_Responses = count_agg (map Answer g) \<rparr>)"

text \<open>The \<^verbatim>\<open>groupby(...).agg(...).rename(...).reset_index()\<close> chain, before sorting.\<close>

definition session_groups :: "dataframe \<Rightarrow> summary_row list" where
  "session_groups df = map (summary_of_group df) (group_keys session_key_of df)"

definition get_session_summary :: "(int list \<Rightarrow> nat list) \<Rightarrow> dataframe \<Rightarrow> summary_row list" where
  "get_session_summary argsort df =
     (let summary = session_groups df
      in sort_values_desc argsort S_Webinar_Date summary)"

subsection \<open>\<^verbatim>\<open>get_question_totals\<close>\<close>

record totals_row =
  Q_Webinar_Date :: int
  Q_Month_Year :: string
  Q_Webinar_Title_Full :: string
  Q_Question :: string
  Q_Answer :: string
  Count :: nat

type_synonym totals_key = "int \<times> string \<times> string \<times> string \<times> string"

definition totals_key_of :: "row \<Rightarrow> totals_key option" where
  "totals_key_of r =
     (case (Webinar_Date r, Month_Year r, Webinar_Title_Full r, Question r, Answer r) of
        (Some d, Some m, Some t, Some q, Some a) \<Rightarrow> Some (d, m, t, q, a)
      | _ \<Rightarrow> None)"

definition totals_of_group :: "dataframe \<Rightarrow> totals_key \<Rightarrow> totals_row" where
  "totals_of_group df k =
     (case k of (d, m, t, q, a) \<Rightarrow>
        \<lparr> Q_Webinar_Date = d, Q_Month_Year = m, Q_Webinar_Title_Full = t,
          Q_Question = q, Q_Answer = a,
          Count = size_agg (group_rows totals_key_of df k) \<rparr>)"

definition question_groups :: "dataframe \<Rightarrow> totals_row list" where
  "question_groups df = map (totals_of_group df) (group_keys totals_key_of df)"

text \<open>
  \<^verbatim>\<open>if session_filter:\<close> is Python's truth test: \<^verbatim>\<open>None\<close> and the empty string are
  false, every other string is true.
\<close>

definition truthy :: "string option \<Rightarrow> bool" where
  "truthy session_filter = (case session_filter of None \<Rightarrow> False | Some s \<Rightarrow> s \<noteq> [])"

definition get_question_totals ::
  "(int list \<Rightarrow> nat list) \<Rightarrow> dataframe \<Rightarrow> string option \<Rightarrow> totals_row list" where
  "get_question_totals argsort df session_filter =
     (let df' = (if truthy session_filter
                 then select_eq Month_Year (the session_filter) df
                 else df);
          totals = question_groups df'
      in sort_values_desc argsort Q_Webinar_Date totals)"

subsection \<open>Percentages of a (session, question) subgroup\<close>







section \<open>Filter engine\<close>


definition filter_step :: "(row \<Rightarrow> string option) \<Rightarrow> string \<Rightarrow> string \<Rightarrow> dataframe \<Rightarrow> dataframe" where
  "filter_step col sentinel selected df =
     (if selected \<noteq> sentinel then select_eq col selected df else df)"


text \<open>The specification's reading of a filter set: which constraints are active, and
  when a row satisfies all of them.\<close>

definition active :: "string \<Rightarrow> string \<Rightarrow> bool" where
  "active sentinel selected \<longleftrightarrow> selected \<noteq> sentinel"

definition constraint_holds :: "(row \<Rightarrow> string option) \<Rightarrow> string \<Rightarrow> string \<Rightarrow> row \<Rightarrow> bool" where
  "constraint_holds col sentinel selected r \<longleftrightarrow>
     (if active sentinel selected then col r = Some selected else True)"



section \<open>Vocabulary for stating the properties\<close>

text \<open>The key columns of an output row, read back as a tuple.\<close>

definition skey :: "summary_row \<Rightarrow> session_key" where
  "skey s = (S_Webinar_Date s, S_Month_Year s, S_Webinar_Title_Full s)"

definition qkey :: "totals_row \<Rightarrow> totals_key" where
  "qkey t = (Q_Webinar_Date t, Q_Month_Year t, Q_Webinar_Title_Full t, Q_Question t, Q_Answer t)"

text \<open>The distinct present values of a column among some rows.\<close>

definition distinct_values :: "(row \<Rightarrow> 'a option) \<Rightarrow> dataframe \<Rightarrow> 'a set" where
  "distinct_values col g = {v. \<exists>r\<in>set g. col r = Some v}"

text \<open>The rows of a table that carry a given key.\<close>

definition rows_with :: "(row \<Rightarrow> 'k option) \<Rightarrow> 'k \<Rightarrow> dataframe \<Rightarrow> dataframe" where
  "rows_with key k df = filter (\<lambda>r. key r = Some k) df"

text \<open>A row is counted by the session summary when its three session cells and its
  answer are present.\<close>

definition counted :: "row \<Rightarrow> bool" where
  "counted r \<longleftrightarrow>
     Webinar_Date r \<noteq> None \<and> Month_Year r \<noteq> None \<and> Webinar_Title_Full r \<noteq> None \<and>
     Answer r \<noteq> None"

text \<open>The specification's restriction step of \<^verbatim>\<open>question_totals\<close>: a given label
  restricts the table to the rows that carry it, no label leaves the table alone.\<close>

definition restricted :: "dataframe \<Rightarrow> string option \<Rightarrow> dataframe" where
  "restricted df s = (case s of None \<Rightarrow> df | Some l \<Rightarrow> filter (\<lambda>r. Month_Year r = Some l) df)"




section \<open>Sample data\<close>

definition jane :: row where
  "jane = \<lparr> Webinar_Date = Some 20240115, Month_Year = Some ''Jan 2024'',
            Webinar_Title_Full = Some ''Housing 101'', Name = Some ''Jane Doe'',
            City_State = Some ''Ithaca, NY'', State = Some ''NY'',
            Population_Range = Some ''10k-50k'', Question = Some ''Q1'',
            Answer = Some ''A'' \<rparr>"

definition john :: row where
  "john = jane \<lparr> Name := Some ''John Roe'', City_State := Some ''Troy, NY'', Answer := Some ''B'' \<rparr>"

definition blank :: row where
  "blank = jane \<lparr> Name := Some ''Ann Poe'', Answer := None \<rparr>"

definition zoe :: row where
  "zoe = jane \<lparr> Webinar_Date := Some 20240212, Month_Year := Some ''Feb 2024'',
                 Webinar_Title_Full := Some ''Zoning'', Name := Some ''Zoe Low'' \<rparr>"


definition unlabelled :: row where
  "unlabelled = jane \<lparr> Month_Year := Some [], Name := Some ''Una Bell'' \<rparr>"

definition jan_summary :: summary_row where
  "jan_summary = \<lparr> S_Webinar_Date = 20240115, S_Month_Year = ''Jan 2024'',
                   S_Webinar_Title_Full = ''Housing 101'', Unique_Respondents = 2,
                   Unique_Questions = 1, Total_Responses = 2 \<rparr>"

definition jan_a :: totals_row where
  "jan_a = \<lparr> Q_Webinar_Date = 20240115, Q_Month_Year = ''Jan 2024'',
             Q_Webinar_Title_Full = ''Housing 101'', Q_Question = ''Q1'', Q_Answer = ''A'',
             Count = 3 \<rparr>"






section \<open>Grouping and sorting: basic facts\<close>

subsection \<open>Group keys\<close>

lemma set_map_filter_key:
  "set (List.map_filter key df) = {k. \<exists>r\<in>set df. key r = Some k}"
  by (induction df) (auto simp: List.map_filter_simps split: option.splits)

lemma set_group_keys: "set (group_keys key df) = {k. \<exists>r\<in>set df. key r = Some k}"
  by (simp add: group_keys_def set_map_filter_key)

lemma distinct_group_keys: "distinct (group_keys key df)"
  by (simp add: group_keys_def)

lemma sorted_group_keys: "sorted (group_keys key df)"
  by (simp add: group_keys_def)

subsection \<open>Sorting by a column, descending\<close>


lemma nargsort_desc_mset:
  assumes "argsort_ok argsort"
  shows "mset (nargsort_desc argsort items) = mset [0..<length items]"
proof -
  let ?n = "length items"
  have p: "mset (argsort (rev items)) = mset [0..<?n]"
    using assms unfolding argsort_ok_def by (metis length_rev)
  have "mset (map (\<lambda>i. rev [0..<?n] ! i) (argsort (rev items)))
        = image_mset (\<lambda>i. rev [0..<?n] ! i) (mset [0..<?n])"
    using p by (simp only: mset_map)
  also have "\<dots> = mset (map (\<lambda>i. rev [0..<?n] ! i) [0..<length (rev [0..<?n])])"
    by (simp only: mset_map length_rev length_upt diff_zero)
  also have "\<dots> = mset (rev [0..<?n])"
    by (simp only: map_nth)
  finally show ?thesis
    by (simp add: nargsort_desc_def Let_def)
qed

lemma sort_values_desc_mset:
  assumes "argsort_ok argsort"
  shows "mset (sort_values_desc argsort col df) = mset df"
proof -
  have "mset (nargsort_desc argsort (map col df)) = mset [0..<length df]"
    using nargsort_desc_mset [OF assms, of "map col df"] by simp
  then have "mset (map (\<lambda>i. df ! i) (nargsort_desc argsort (map col df)))
             = mset (map (\<lambda>i. df ! i) [0..<length df])"
    by (simp only: mset_map)
  then show ?thesis
    by (simp only: sort_values_desc_def map_nth)
qed



subsection \<open>The stable sort and the tie-reversing sort meet the contract\<close>

lemma map_insort_key_agree:
  assumes "k p = f (g p)" and "\<forall>q\<in>set ys. k q = f (g q)"
  shows "map g (insort_key k p ys) = insort_key f (g p) (map g ys)"
  using assms by (induction ys) auto

lemma map_sort_key_agree:
  assumes "\<forall>p\<in>set ps. k p = f (g p)"
  shows "map g (sort_key k ps) = sort_key f (map g ps)"
  using assms
proof (induction ps)
  case Nil
  then show ?case by simp
next
  case (Cons p ps)
  then show ?case
    by (simp add: map_insort_key_agree)
qed

lemma zip_upt_read: "map (\<lambda>p. xs ! snd p) (zip ys [0..<length xs]) = xs" if "length ys = length xs"
proof -
  have "map (\<lambda>p. xs ! snd p) (zip ys [0..<length xs]) = map (\<lambda>i. xs ! i) (map snd (zip ys [0..<length xs]))"
    by (simp add: comp_def)
  also have "\<dots> = map (\<lambda>i. xs ! i) [0..<length xs]"
    using that by simp
  finally show ?thesis by (simp add: map_nth)
qed

lemma read_stable_argsort: "map (\<lambda>i. xs ! i) (stable_argsort (map f xs)) = sort_key f xs"
proof -
  let ?ps = "zip (map f xs) [0..<length xs]"
  have agree: "\<forall>p\<in>set ?ps. fst p = f (xs ! snd p)"
    by (auto simp: set_zip)
  have "map (\<lambda>i. xs ! i) (stable_argsort (map f xs)) = map (\<lambda>p. xs ! snd p) (sort_key fst ?ps)"
    by (simp add: stable_argsort_def comp_def)
  also have "\<dots> = sort_key f (map (\<lambda>p. xs ! snd p) ?ps)"
    using agree by (rule map_sort_key_agree)
  also have "\<dots> = sort_key f xs"
    by (simp add: zip_upt_read)
  finally show ?thesis .
qed

lemma mset_stable_argsort: "mset (stable_argsort xs) = mset [0..<length xs]"
proof -
  have "mset (stable_argsort xs) = mset (map snd (zip xs [0..<length xs]))"
    unfolding stable_argsort_def by (simp only: mset_map mset_sort)
  then show ?thesis by simp
qed

lemma argsort_ok_stable: "argsort_ok stable_argsort"
  unfolding argsort_ok_def
proof (intro allI conjI)
  fix xs :: "int list"
  show "mset (stable_argsort xs) = mset [0..<length xs]"
    by (rule mset_stable_argsort)
  have "map (\<lambda>i. xs ! i) (stable_argsort (map (\<lambda>x. x) xs)) = sort_key (\<lambda>x. x) xs"
    by (rule read_stable_argsort)
  then show "sorted (map (\<lambda>i. xs ! i) (stable_argsort xs))"
    by simp
qed







subsection \<open>Aggregates over groups\<close>

lemma length_filter_key_split:
  assumes "k \<notin> set ks"
  shows "length (filter (\<lambda>r. key r = Some k \<and> P r) df)
         + length (filter (\<lambda>r. (\<exists>j\<in>set ks. key r = Some j) \<and> P r) df)
         = length (filter (\<lambda>r. (\<exists>j\<in>set (k # ks). key r = Some j) \<and> P r) df)"
  using assms by (induction df) auto

lemma sum_group_lengths:
  assumes "distinct ks"
  shows "sum_list (map (\<lambda>k. length (filter (\<lambda>r. key r = Some k \<and> P r) df)) ks)
         = length (filter (\<lambda>r. (\<exists>j\<in>set ks. key r = Some j) \<and> P r) df)"
  using assms
proof (induction ks)
  case Nil
  then show ?case by simp
next
  case (Cons k ks)
  then have "k \<notin> set ks" and "distinct ks" by simp_all
  then show ?case
    using Cons.IH length_filter_key_split [of k ks key P df] by simp
qed

lemma key_in_group_keys: "(\<exists>j\<in>set (group_keys key df). key r = Some j) \<longleftrightarrow> key r \<noteq> None" if "r \<in> set df"
  using that by (auto simp: set_group_keys)

lemma sum_group_lengths_all:
  "sum_list (map (\<lambda>k. length (filter (\<lambda>r. key r = Some k \<and> P r) df)) (group_keys key df))
   = length (filter (\<lambda>r. key r \<noteq> None \<and> P r) df)"
proof -
  have "filter (\<lambda>r. (\<exists>j\<in>set (group_keys key df). key r = Some j) \<and> P r) df
        = filter (\<lambda>r. key r \<noteq> None \<and> P r) df"
    by (rule filter_cong [OF refl]) (simp add: key_in_group_keys)
  then show ?thesis
    using sum_group_lengths [OF distinct_group_keys, of key P df key] by simp
qed

lemma count_agg_map: "count_agg (map col g) = length (filter (\<lambda>r. col r \<noteq> None) g)"
  by (simp add: count_agg_def filter_map comp_def)

lemma set_present_values: "set (List.map_filter id (map col g)) = {v. \<exists>r\<in>set g. col r = Some v}"
  by (induction g) (auto simp: List.map_filter_simps split: option.splits)

lemma nunique_map: "nunique (map col g) = card {v. \<exists>r\<in>set g. col r = Some v}"
  by (simp add: nunique_def length_remdups_card_conv set_present_values)

lemma Total_Responses_summary:
  "Total_Responses (summary_of_group df k)
   = length (filter (\<lambda>r. session_key_of r = Some k \<and> Answer r \<noteq> None) df)"
  by (simp add: summary_of_group_def Let_def count_agg_map group_rows_def)

lemma session_key_of_None:
  "session_key_of r \<noteq> None \<longleftrightarrow>
     Webinar_Date r \<noteq> None \<and> Month_Year r \<noteq> None \<and> Webinar_Title_Full r \<noteq> None"
  by (simp add: session_key_of_def split: option.splits)

lemma sum_Total_Responses_groups:
  "sum_list (map Total_Responses (session_groups df))
   = length (filter (\<lambda>r. session_key_of r \<noteq> None \<and> Answer r \<noteq> None) df)"
proof -
  have "map Total_Responses (session_groups df)
        = map (\<lambda>k. length (filter (\<lambda>r. session_key_of r = Some k \<and> Answer r \<noteq> None) df))
              (group_keys session_key_of df)"
    by (simp add: session_groups_def comp_def Total_Responses_summary)
  then show ?thesis
    by (simp only: sum_group_lengths_all)
qed

lemma sum_list_sort_values_desc:
  assumes "argsort_ok argsort"
  shows "sum_list (map (f :: 'r \<Rightarrow> nat) (sort_values_desc argsort col df)) = sum_list (map f df)"
proof -
  have "mset (map f (sort_values_desc argsort col df)) = mset (map f df)"
    by (simp only: mset_map sort_values_desc_mset [OF assms])
  then have "sum_mset (mset (map f (sort_values_desc argsort col df))) = sum_mset (mset (map f df))"
    by (rule arg_cong)
  then show ?thesis
    by (simp only: sum_mset_sum_list)
qed

lemma set_sort_values_desc:
  assumes "argsort_ok argsort"
  shows "set (sort_values_desc argsort col df) = set df"
  using sort_values_desc_mset [OF assms] by (rule mset_eq_setD)

lemma distinct_map_sort_values_desc:
  assumes "argsort_ok argsort"
  shows "distinct (map f (sort_values_desc argsort col df)) \<longleftrightarrow> distinct (map f df)"
proof -
  have "mset (map f (sort_values_desc argsort col df)) = mset (map f df)"
    by (simp only: mset_map sort_values_desc_mset [OF assms])
  then show ?thesis
    by (rule mset_eq_imp_distinct_iff)
qed

section \<open>Filter engine: properties\<close>

lemma filter_step_filter: "filter_step col sentinel selected df = filter (constraint_holds col sentinel selected) df"
  by (simp add: filter_step_def constraint_holds_def [abs_def] active_def select_eq_def)



text \<open>
  Claim C7. Two equality filters can be applied in either order: the result is the
  same table, namely the rows that satisfy both constraints. This holds for the
  sentinel-guarded steps of \<^verbatim>\<open>main\<close> and for the bare mask selections.
\<close>

theorem filters_commute:
  "filter_step c1 s1 v1 (filter_step c2 s2 v2 df) = filter_step c2 s2 v2 (filter_step c1 s1 v1 df) \<and>
   filter_step c1 s1 v1 (filter_step c2 s2 v2 df)
     = filter (\<lambda>r. constraint_holds c1 s1 v1 r \<and> constraint_holds c2 s2 v2 r) df \<and>
   select_eq c1 v1 (select_eq c2 v2 df) = select_eq c2 v2 (select_eq c1 v1 df)"
  by (auto simp: filter_step_filter select_eq_def conj_commute intro: filter_cong)

theorem filters_commute_witness:
  "filter_step Name ''All Respondents'' ''Jane Doe'' (filter_step Question ''All Questions'' ''Q1'' [jane, john])
   = filter_step Question ''All Questions'' ''Q1'' (filter_step Name ''All Respondents'' ''Jane Doe'' [jane, john]) \<and>
   filter_step Name ''All Respondents'' ''Jane Doe'' (filter_step Question ''All Questions'' ''Q1'' [jane, john]) = [jane]"
proof -
  have "constraint_holds Name ''All Respondents'' ''Jane Doe'' jane"
    "constraint_holds Question ''All Questions'' ''Q1'' jane"
    "constraint_holds Question ''All Questions'' ''Q1'' john"
    "\<not> constraint_holds Name ''All Respondents'' ''Jane Doe'' john"
    by (simp_all add: constraint_holds_def active_def jane_def john_def)
  then show ?thesis
    using filters_commute [of Name "''All Respondents''" "''Jane Doe''" Question "''All Questions''" "''Q1''" "[jane, john]"]
    by auto
qed

text \<open>
  Claim C9. When the value asked for does not occur in the column, the equality filter
  returns the empty table. The selection is a total function on tables: there is no
  error result.
\<close>

theorem absent_value_empty:
  assumes "Some v \<notin> set (map col df)"
  shows "select_eq col v df = [] \<and>
         (v \<noteq> sentinel \<longrightarrow> filter_step col sentinel v df = [])"
proof -
  have "select_eq col v df = []"
    using assms by (force simp: select_eq_def filter_empty_conv)
  then show ?thesis
    by (simp add: filter_step_def)
qed

theorem absent_value_empty_witness:
  "Some ''Nobody'' \<notin> set (map Name [jane, john]) \<and> ''Nobody'' \<noteq> ''All Respondents'' \<and>
   select_eq Name ''Nobody'' [jane, john] = [] \<and>
   filter_step Name ''All Respondents'' ''Nobody'' [jane, john] = []"
proof -
  have h: "Some ''Nobody'' \<notin> set (map Name [jane, john])"
    by (simp add: jane_def john_def)
  show ?thesis
    using h absent_value_empty [OF h, of "''All Respondents''"] by simp
qed

section \<open>Question totals: the truth test on the session filter\<close>

text \<open>
  Claim C10. A falsy \<^verbatim>\<open>session_filter\<close>, in particular the empty string, gives the same
  result as no filter at all: the totals of the whole table, also when rows with an
  empty month-year label exist.
\<close>

theorem falsy_filter_is_no_filter:
  "get_question_totals argsort df (Some []) = get_question_totals argsort df None \<and>
   get_question_totals argsort df (Some [])
     = sort_values_desc argsort Q_Webinar_Date (question_groups df) \<and>
   (\<not> truthy session_filter \<longrightarrow>
      get_question_totals argsort df session_filter = get_question_totals argsort df None)"
  by (simp add: get_question_totals_def truthy_def)

theorem falsy_filter_is_no_filter_witness:
  "\<not> truthy (Some []) \<and>
   get_question_totals stable_argsort [unlabelled, jane] (Some [])
     = get_question_totals stable_argsort [unlabelled, jane] None \<and>
   map Q_Month_Year (get_question_totals stable_argsort [unlabelled, jane] (Some [])) = ['''', ''Jan 2024'']"
proof -
  have t: "\<not> truthy (Some [])"
    by (simp add: truthy_def)
  have v: "map Q_Month_Year (get_question_totals stable_argsort [unlabelled, jane] None) = ['''', ''Jan 2024'']"
    by code_simp
  show ?thesis
    using t v falsy_filter_is_no_filter [of stable_argsort "[unlabelled, jane]" "Some []"] by simp
qed

section \<open>Session summary: properties\<close>

lemma session_key_of_Some:
  "session_key_of r = Some (d, m, t) \<longleftrightarrow>
     Webinar_Date r = Some d \<and> Month_Year r = Some m \<and> Webinar_Title_Full r = Some t"
  by (auto simp: session_key_of_def split: option.splits)

lemma skey_summary_of_group: "skey (summary_of_group df k) = k"
  by (simp add: skey_def summary_of_group_def Let_def)

lemma map_skey_session_groups: "map skey (session_groups df) = group_keys session_key_of df"
  by (simp add: session_groups_def comp_def skey_summary_of_group)

lemma session_groups_row:
  assumes "s \<in> set (session_groups df)"
  shows "s = summary_of_group df (skey s)"
proof -
  from assms obtain k where "s = summary_of_group df k"
    by (auto simp: session_groups_def)
  then show ?thesis
    by (simp add: skey_summary_of_group)
qed

lemma summary_of_group_fields:
  "Unique_Respondents (summary_of_group df k) = card (distinct_values Name (rows_with session_key_of k df))"
  "Unique_Questions (summary_of_group df k) = card (distinct_values Question (rows_with session_key_of k df))"
  "Total_Responses (summary_of_group df k)
     = length (filter (\<lambda>r. Answer r \<noteq> None) (rows_with session_key_of k df))"
  by (simp_all add: summary_of_group_def Let_def nunique_map count_agg_map distinct_values_def
      rows_with_def group_rows_def)

lemma counted_iff: "counted r \<longleftrightarrow> session_key_of r \<noteq> None \<and> Answer r \<noteq> None"
  by (simp only: counted_def session_key_of_None conj_assoc)

text \<open>
  Claim C2, as amended. The summary has exactly one row for every triple of present
  (webinar date, month-year, webinar title) cells that occurs in the table. That row
  holds the number of distinct present respondent names of the group, the number of
  distinct present questions, and the number of rows of the group whose answer is
  present; the last is the row count of the group when no answer of the group is
  missing.
\<close>

theorem session_summary_groups:
  assumes "argsort_ok argsort"
  shows "distinct (map skey (get_session_summary argsort df)) \<and>
         set (map skey (get_session_summary argsort df))
           = {(d, m, t). \<exists>r\<in>set df. Webinar_Date r = Some d \<and> Month_Year r = Some m \<and>
                                     Webinar_Title_Full r = Some t} \<and>
         (\<forall>s\<in>set (get_session_summary argsort df).
            Unique_Respondents s = card (distinct_values Name (rows_with session_key_of (skey s) df)) \<and>
            Unique_Questions s = card (distinct_values Question (rows_with session_key_of (skey s) df)) \<and>
            Total_Responses s
              = length (filter (\<lambda>r. Answer r \<noteq> None) (rows_with session_key_of (skey s) df)) \<and>
            ((\<forall>r\<in>set (rows_with session_key_of (skey s) df). Answer r \<noteq> None) \<longrightarrow>
               Total_Responses s = length (rows_with session_key_of (skey s) df)))"
proof (intro conjI ballI)
  let ?out = "get_session_summary argsort df"
  have out: "?out = sort_values_desc argsort S_Webinar_Date (session_groups df)"
    by (simp add: get_session_summary_def)
  show "distinct (map skey ?out)"
    by (simp only: out distinct_map_sort_values_desc [OF assms] map_skey_session_groups
        distinct_group_keys)
  have "set (map skey ?out) = skey ` set (session_groups df)"
    by (simp only: out set_map set_sort_values_desc [OF assms])
  also have "\<dots> = set (group_keys session_key_of df)"
    by (simp only: map_skey_session_groups [symmetric] set_map)
  also have "\<dots> = {(d, m, t). \<exists>r\<in>set df. Webinar_Date r = Some d \<and> Month_Year r = Some m \<and>
                                     Webinar_Title_Full r = Some t}"
    by (auto simp: set_group_keys session_key_of_Some)
  finally show "set (map skey ?out) = {(d, m, t). \<exists>r\<in>set df. Webinar_Date r = Some d \<and>
      Month_Year r = Some m \<and> Webinar_Title_Full r = Some t}" .
next
  fix s assume "s \<in> set (get_session_summary argsort df)"
  then have "s \<in> set (session_groups df)"
    by (simp add: get_session_summary_def set_sort_values_desc [OF assms])
  then have s: "s = summary_of_group df (skey s)"
    by (rule session_groups_row)
  let ?g = "rows_with session_key_of (skey s) df"
  show "Unique_Respondents s = card (distinct_values Name ?g)"
    by (subst s) (simp only: summary_of_group_fields skey_summary_of_group)
  show "Unique_Questions s = card (distinct_values Question ?g)"
    by (subst s) (simp only: summary_of_group_fields skey_summary_of_group)
  show tr: "Total_Responses s = length (filter (\<lambda>r. Answer r \<noteq> None) ?g)"
    by (subst s) (simp only: summary_of_group_fields skey_summary_of_group)
  show "(\<forall>r\<in>set ?g. Answer r \<noteq> None) \<longrightarrow> Total_Responses s = length ?g"
  proof
    assume "\<forall>r\<in>set ?g. Answer r \<noteq> None"
    then have "filter (\<lambda>r. Answer r \<noteq> None) ?g = ?g"
      by (simp only: filter_True)
    then show "Total_Responses s = length ?g"
      by (simp only: tr)
  qed
qed

theorem session_summary_groups_witness:
  "argsort_ok stable_argsort \<and>
   jan_summary \<in> set (get_session_summary stable_argsort [jane, john, zoe]) \<and>
   rows_with session_key_of (skey jan_summary) [jane, john, zoe] = [jane, john] \<and>
   Answer jane \<noteq> None \<and> Answer john \<noteq> None \<and>
   Total_Responses jan_summary
     = length (rows_with session_key_of (skey jan_summary) [jane, john, zoe]) \<and>
   Unique_Respondents jan_summary
     = card (distinct_values Name (rows_with session_key_of (skey jan_summary) [jane, john, zoe])) \<and>
   distinct (map skey (get_session_summary stable_argsort [jane, john, zoe]))"
proof -
  note t = session_summary_groups [OF argsort_ok_stable, of "[jane, john, zoe]"]
  have m: "jan_summary \<in> set (get_session_summary stable_argsort [jane, john, zoe])"
    by code_simp
  have g: "rows_with session_key_of (skey jan_summary) [jane, john, zoe] = [jane, john]"
    by code_simp
  have a: "Answer jane \<noteq> None" "Answer john \<noteq> None"
    by (simp_all add: jane_def john_def)
  from t m have
    "Total_Responses jan_summary
       = length (filter (\<lambda>r. Answer r \<noteq> None) (rows_with session_key_of (skey jan_summary) [jane, john, zoe]))"
    and u: "Unique_Respondents jan_summary
       = card (distinct_values Name (rows_with session_key_of (skey jan_summary) [jane, john, zoe]))"
    by blast+
  then have c: "Total_Responses jan_summary
       = length (rows_with session_key_of (skey jan_summary) [jane, john, zoe])"
    using a by (simp add: g)
  from t have d: "distinct (map skey (get_session_summary stable_argsort [jane, john, zoe]))"
    by (rule conjunct1)
  show ?thesis
    using argsort_ok_stable m g a c u d by (intro conjI)
qed

theorem session_summary_groups_counterexample:
  "argsort_ok stable_argsort \<and>
   map skey (get_session_summary stable_argsort [blank]) = [(20240115, ''Jan 2024'', ''Housing 101'')] \<and>
   map Total_Responses (get_session_summary stable_argsort [blank]) = [0] \<and>
   length (rows_with session_key_of (20240115, ''Jan 2024'', ''Housing 101'') [blank]) = 1"
proof (intro conjI)
  show "argsort_ok stable_argsort" by (rule argsort_ok_stable)
  show "map skey (get_session_summary stable_argsort [blank]) = [(20240115, ''Jan 2024'', ''Housing 101'')]"
    by code_simp
  show "map Total_Responses (get_session_summary stable_argsort [blank]) = [0]"
    by code_simp
  show "length (rows_with session_key_of (20240115, ''Jan 2024'', ''Housing 101'') [blank]) = 1"
    by code_simp
qed

text \<open>
  Claim C4, as amended. The total-responses column sums to the number of rows whose
  webinar date, month-year, webinar title and answer are all present; that is the
  number of rows of the table when no such cell is missing.
\<close>

theorem total_responses_sum:
  assumes "argsort_ok argsort"
  shows "sum_list (map Total_Responses (get_session_summary argsort df)) = length (filter counted df) \<and>
         ((\<forall>r\<in>set df. counted r) \<longrightarrow>
            sum_list (map Total_Responses (get_session_summary argsort df)) = length df)"
proof -
  have "sum_list (map Total_Responses (get_session_summary argsort df))
        = sum_list (map Total_Responses (session_groups df))"
    by (simp only: get_session_summary_def Let_def sum_list_sort_values_desc [OF assms])
  also have "\<dots> = length (filter counted df)"
    by (simp only: sum_Total_Responses_groups counted_iff [abs_def])
  finally have eq: "sum_list (map Total_Responses (get_session_summary argsort df))
                    = length (filter counted df)" .
  moreover have "length (filter counted df) = length df" if "\<forall>r\<in>set df. counted r"
    using that by (simp only: filter_True)
  ultimately show ?thesis by simp
qed

theorem total_responses_sum_witness:
  "argsort_ok stable_argsort \<and> counted jane \<and> counted john \<and> counted zoe \<and>
   sum_list (map Total_Responses (get_session_summary stable_argsort [jane, john, zoe]))
     = length [jane, john, zoe] \<and>
   sum_list (map Total_Responses (get_session_summary stable_argsort [jane, blank, zoe])) = 2"
proof -
  have c: "counted jane" "counted john" "counted zoe" "\<not> counted blank"
    by (simp_all add: counted_def jane_def john_def zoe_def blank_def)
  show ?thesis
    using argsort_ok_stable c
      total_responses_sum [OF argsort_ok_stable, of "[jane, john, zoe]"]
      total_responses_sum [OF argsort_ok_stable, of "[jane, blank, zoe]"]
    by simp
qed

theorem total_responses_sum_counterexample:
  "argsort_ok stable_argsort \<and>
   sum_list (map Total_Responses (get_session_summary stable_argsort [jane, blank])) = 1 \<and>
   length [jane, blank] = 2"
proof (intro conjI)
  show "argsort_ok stable_argsort" by (rule argsort_ok_stable)
  show "sum_list (map Total_Responses (get_session_summary stable_argsort [jane, blank])) = 1"
    by code_simp
  show "length [jane, blank] = 2" by simp
qed




section \<open>Question totals: properties\<close>

lemma totals_key_of_Some:
  "totals_key_of r = Some (d, m, t, q, a) \<longleftrightarrow>
     Webinar_Date r = Some d \<and> Month_Year r = Some m \<and> Webinar_Title_Full r = Some t \<and>
     Question r = Some q \<and> Answer r = Some a"
  by (auto simp: totals_key_of_def split: option.splits)

lemma qkey_totals_of_group: "qkey (totals_of_group df k) = k"
  by (cases k) (simp add: qkey_def totals_of_group_def)

lemma Count_totals_of_group: "Count (totals_of_group df k) = length (rows_with totals_key_of k df)"
  by (cases k) (simp add: totals_of_group_def size_agg_def group_rows_def rows_with_def)

lemma map_qkey_question_groups: "map qkey (question_groups df) = group_keys totals_key_of df"
  by (simp add: question_groups_def comp_def qkey_totals_of_group)

lemma question_groups_row:
  assumes "t \<in> set (question_groups df)"
  shows "t = totals_of_group df (qkey t) \<and> qkey t \<in> set (group_keys totals_key_of df)"
proof -
  from assms obtain k where "k \<in> set (group_keys totals_key_of df)" "t = totals_of_group df k"
    by (auto simp: question_groups_def)
  then show ?thesis
    by (simp add: qkey_totals_of_group)
qed

lemma get_question_totals_restricted:
  assumes "session_filter \<noteq> Some []"
  shows "get_question_totals argsort df session_filter
         = sort_values_desc argsort Q_Webinar_Date (question_groups (restricted df session_filter))"
  using assms
  by (cases session_filter)
    (simp_all add: get_question_totals_def truthy_def restricted_def select_eq_def)

text \<open>
  Claim C3, as amended. With no session label, or with a non-empty one, the table is
  first restricted to the rows that carry the label (all rows when there is none), so
  that with a label every output row carries it. The result has exactly one row for
  every combination of present (webinar date, month-year, webinar title, question,
  answer) cells that occurs in the restricted table, and its count is the number of
  restricted rows with that combination.
\<close>

theorem question_totals_groups:
  assumes "argsort_ok argsort" and "session_filter \<noteq> Some []"
  shows "distinct (map qkey (get_question_totals argsort df session_filter)) \<and>
         set (map qkey (get_question_totals argsort df session_filter))
           = {(d, m, t, q, a). \<exists>r\<in>set (restricted df session_filter).
                Webinar_Date r = Some d \<and> Month_Year r = Some m \<and> Webinar_Title_Full r = Some t \<and>
                Question r = Some q \<and> Answer r = Some a} \<and>
         (\<forall>t\<in>set (get_question_totals argsort df session_filter).
            Count t = length (rows_with totals_key_of (qkey t) (restricted df session_filter)) \<and>
            (\<forall>l. session_filter = Some l \<longrightarrow> Q_Month_Year t = l))"
proof (intro conjI ballI allI impI)
  let ?df = "restricted df session_filter"
  let ?out = "get_question_totals argsort df session_filter"
  have out: "?out = sort_values_desc argsort Q_Webinar_Date (question_groups ?df)"
    using assms(2) by (rule get_question_totals_restricted)
  show "distinct (map qkey ?out)"
    by (simp only: out distinct_map_sort_values_desc [OF assms(1)] map_qkey_question_groups
        distinct_group_keys)
  have "set (map qkey ?out) = qkey ` set (question_groups ?df)"
    by (simp only: out set_map set_sort_values_desc [OF assms(1)])
  also have "\<dots> = set (group_keys totals_key_of ?df)"
    by (simp only: map_qkey_question_groups [symmetric] set_map)
  also have "\<dots> = {(d, m, t, q, a). \<exists>r\<in>set ?df.
                Webinar_Date r = Some d \<and> Month_Year r = Some m \<and> Webinar_Title_Full r = Some t \<and>
                Question r = Some q \<and> Answer r = Some a}"
    by (auto simp: set_group_keys totals_key_of_Some)
  finally show "set (map qkey ?out) = {(d, m, t, q, a). \<exists>r\<in>set ?df.
                Webinar_Date r = Some d \<and> Month_Year r = Some m \<and> Webinar_Title_Full r = Some t \<and>
                Question r = Some q \<and> Answer r = Some a}" .
next
  fix t assume "t \<in> set (get_question_totals argsort df session_filter)"
  then have mem: "t \<in> set (question_groups (restricted df session_filter))"
    by (simp add: get_question_totals_restricted [OF assms(2)] set_sort_values_desc [OF assms(1)])
  then have t: "t = totals_of_group (restricted df session_filter) (qkey t)"
    and k: "qkey t \<in> set (group_keys totals_key_of (restricted df session_filter))"
    by (simp_all add: question_groups_row)
  show "Count t = length (rows_with totals_key_of (qkey t) (restricted df session_filter))"
    by (subst t) (simp only: Count_totals_of_group qkey_totals_of_group)
  fix l assume l: "session_filter = Some l"
  from k obtain r where r: "r \<in> set (restricted df session_filter)" "totals_key_of r = Some (qkey t)"
    by (auto simp: set_group_keys)
  from r(1) have "Month_Year r = Some l"
    by (simp add: restricted_def l)
  moreover from r(2) have "Month_Year r = Some (Q_Month_Year t)"
    by (simp add: qkey_def totals_key_of_Some)
  ultimately show "Q_Month_Year t = l" by simp
qed

theorem question_totals_groups_witness:
  "argsort_ok stable_argsort \<and> Some ''Jan 2024'' \<noteq> Some [] \<and>
   jan_a \<in> set (get_question_totals stable_argsort [jane, jane, john, zoe, jane] (Some ''Jan 2024'')) \<and>
   Count jan_a = length (rows_with totals_key_of (qkey jan_a)
                    (restricted [jane, jane, john, zoe, jane] (Some ''Jan 2024''))) \<and>
   Q_Month_Year jan_a = ''Jan 2024'' \<and>
   distinct (map qkey (get_question_totals stable_argsort [jane, jane, john, zoe, jane] (Some ''Jan 2024'')))"
proof -
  have n: "Some ''Jan 2024'' \<noteq> Some []" by simp
  note t = question_totals_groups [OF argsort_ok_stable n, of "[jane, jane, john, zoe, jane]"]
  have m: "jan_a \<in> set (get_question_totals stable_argsort [jane, jane, john, zoe, jane] (Some ''Jan 2024''))"
    by code_simp
  from t m have c: "Count jan_a = length (rows_with totals_key_of (qkey jan_a)
                    (restricted [jane, jane, john, zoe, jane] (Some ''Jan 2024'')))"
    and l: "Q_Month_Year jan_a = ''Jan 2024''"
    by blast+
  from t have d: "distinct (map qkey (get_question_totals stable_argsort [jane, jane, john, zoe, jane] (Some ''Jan 2024'')))"
    by (rule conjunct1)
  show ?thesis
    using argsort_ok_stable n m c l d by (intro conjI)
qed

theorem question_totals_counterexample:
  "argsort_ok stable_argsort \<and>
   map Q_Month_Year (get_question_totals stable_argsort [jane, unlabelled] (Some [])) = ['''', ''Jan 2024''] \<and>
   get_question_totals stable_argsort [blank] None = [] \<and>
   totals_key_of blank = None"
proof (intro conjI)
  show "argsort_ok stable_argsort" by (rule argsort_ok_stable)
  show "map Q_Month_Year (get_question_totals stable_argsort [jane, unlabelled] (Some [])) = ['''', ''Jan 2024'']"
    by code_simp
  show "get_question_totals stable_argsort [blank] None = []"
    by code_simp
  show "totals_key_of blank = None"
    by code_simp
qed

section \<open>Percentages: properties\<close>












section \<open>Loader: properties\<close>




end
